theory Spec2Isabelle
  imports Complex_Main
begin

section \<open>Text and characters\<close>

text \<open>
  The extractor of \<^verbatim>\<open>tools/extract_wiki_text.py\<close> works on Python \<^verbatim>\<open>str\<close> values. A
  \<open>string\<close> here is a list of 8-bit characters, one per code point, so the development
  covers text whose code points lie below 256; \<open>length\<close> is Python's \<^verbatim>\<open>len\<close> on such
  text.
\<close>

definition newline :: char where
  "newline = CHR 0x0A"

definition apos :: char where
  "apos = CHR 0x27"

text \<open>
  The whitespace of \<^verbatim>\<open>\s\<close> in a \<^verbatim>\<open>str\<close> pattern and of \<^verbatim>\<open>str.strip()\<close>: below 256 these are
  the code points 9 to 13, 28 to 32, 133 and 160.
\<close>

definition is_space :: "char \<Rightarrow> bool" where
  "is_space c =
     (let n = (of_char c :: nat)
      in (9 \<le> n \<and> n \<le> 13) \<or> (28 \<le> n \<and> n \<le> 32) \<or> n = 133 \<or> n = 160)"

definition strip :: "string \<Rightarrow> string" where
  "strip s = rev (dropWhile is_space (rev (dropWhile is_space s)))"

section \<open>The regular expressions of \<^verbatim>\<open>re.sub\<close>\<close>

text \<open>
  The fragment of Python's pattern language that \<^verbatim>\<open>clean_text\<close> uses. A repetition
  operator is only ever applied to a single character class there, so \<open>Star\<close>, \<open>Plus\<close>
  and their lazy forms take a class.
\<close>

datatype cclass =
    OneOf string      \<comment> \<open>\<^verbatim>\<open>[abc]\<close>\<close>
  | NoneOf string     \<comment> \<open>\<^verbatim>\<open>[^abc]\<close>\<close>
  | AnyChar           \<comment> \<open>\<^verbatim>\<open>.\<close> under \<^verbatim>\<open>re.DOTALL\<close>\<close>
  | NotNewline        \<comment> \<open>\<^verbatim>\<open>.\<close> without \<^verbatim>\<open>re.DOTALL\<close>\<close>
  | Space             \<comment> \<open>\<^verbatim>\<open>\s\<close>\<close>
  | NonSpace          \<comment> \<open>\<^verbatim>\<open>\S\<close>\<close>

fun cmatch :: "cclass \<Rightarrow> char \<Rightarrow> bool" where
  "cmatch (OneOf cs) c = (c \<in> set cs)"
| "cmatch (NoneOf cs) c = (c \<notin> set cs)"
| "cmatch AnyChar c = True"
| "cmatch NotNewline c = (c \<noteq> newline)"
| "cmatch Space c = is_space c"
| "cmatch NonSpace c = (\<not> is_space c)"

datatype regex =
    Lit string          \<comment> \<open>a literal character sequence\<close>
  | Star cclass         \<comment> \<open>greedy \<^verbatim>\<open>*\<close>\<close>
  | Plus cclass         \<comment> \<open>greedy \<^verbatim>\<open>+\<close>\<close>
  | LazyStar cclass     \<comment> \<open>\<^verbatim>\<open>*?\<close>\<close>
  | LazyPlus cclass     \<comment> \<open>\<^verbatim>\<open>+?\<close>\<close>
  | Opt regex           \<comment> \<open>greedy \<^verbatim>\<open>?\<close>\<close>
  | Group nat regex     \<comment> \<open>a numbered capturing group\<close>
  | Seq regex regex     \<comment> \<open>concatenation\<close>
  | Bol                 \<comment> \<open>\<^verbatim>\<open>^\<close> under \<^verbatim>\<open>re.MULTILINE\<close>\<close>
  | Eol                 \<comment> \<open>\<^verbatim>\<open>$\<close> under \<^verbatim>\<open>re.MULTILINE\<close>\<close>

definition cat :: "regex list \<Rightarrow> regex" where
  "cat rs = foldr Seq rs (Lit [])"

text \<open>
  A position of the matcher: whether it stands at the start of a line (the start of the
  text, or just after a newline), the text still to be read, and the groups captured so
  far (the latest binding of a number first).
\<close>

type_synonym mstate = "bool \<times> string \<times> (nat \<times> string) list"

text \<open>
  Every way a class repetition can consume a run of characters, in the order the
  backtracking matcher tries them: longest first when greedy, shortest first when lazy.
\<close>

fun greedy_runs :: "cclass \<Rightarrow> mstate \<Rightarrow> mstate list" where
  "greedy_runs p (bol, [], caps) = [(bol, [], caps)]"
| "greedy_runs p (bol, c # cs, caps) =
     (if cmatch p c then greedy_runs p (c = newline, cs, caps) else []) @ [(bol, c # cs, caps)]"

fun lazy_runs :: "cclass \<Rightarrow> mstate \<Rightarrow> mstate list" where
  "lazy_runs p (bol, [], caps) = [(bol, [], caps)]"
| "lazy_runs p (bol, c # cs, caps) =
     (bol, c # cs, caps) # (if cmatch p c then lazy_runs p (c = newline, cs, caps) else [])"

fun one_char :: "cclass \<Rightarrow> mstate \<Rightarrow> mstate list" where
  "one_char p (bol, [], caps) = []"
| "one_char p (bol, c # cs, caps) = (if cmatch p c then [(c = newline, cs, caps)] else [])"

fun lit_match :: "string \<Rightarrow> mstate \<Rightarrow> mstate list" where
  "lit_match [] st = [st]"
| "lit_match (x # xs) (bol, [], caps) = []"
| "lit_match (x # xs) (bol, c # cs, caps) =
     (if x = c then lit_match xs (c = newline, cs, caps) else [])"

text \<open>
  \<open>rmatch r st\<close> lists the positions at which a match of \<open>r\<close> started at \<open>st\<close> can end,
  in the matcher's order of preference; backtracking into \<open>r\<close> moves to the next entry.
  A group records the text it consumed.
\<close>

fun capture :: "nat \<Rightarrow> string \<Rightarrow> mstate \<Rightarrow> mstate" where
  "capture n start (bol, rest, caps) =
     (bol, rest, (n, take (length start - length rest) start) # caps)"

fun rmatch :: "regex \<Rightarrow> mstate \<Rightarrow> mstate list" where
  "rmatch (Lit cs) st = lit_match cs st"
| "rmatch (Star p) st = greedy_runs p st"
| "rmatch (Plus p) st = concat (map (greedy_runs p) (one_char p st))"
| "rmatch (LazyStar p) st = lazy_runs p st"
| "rmatch (LazyPlus p) st = concat (map (lazy_runs p) (one_char p st))"
| "rmatch (Opt r) st = rmatch r st @ [st]"
| "rmatch (Group n r) st = map (capture n (fst (snd st))) (rmatch r st)"
| "rmatch (Seq r1 r2) st = concat (map (rmatch r2) (rmatch r1 st))"
| "rmatch Bol st = (if fst st then [st] else [])"
| "rmatch Eol st = (case fst (snd st) of [] \<Rightarrow> [st] | c # cs \<Rightarrow> if c = newline then [st] else [])"

definition first_match :: "regex \<Rightarrow> mstate \<Rightarrow> mstate option" where
  "first_match r st = (case rmatch r st of [] \<Rightarrow> None | m # ms \<Rightarrow> Some m)"

text \<open>The replacement template: literal text and group references such as \<^verbatim>\<open>\2\<close>.\<close>

datatype repl_item = RLit string | RGroup nat

fun expand :: "repl_item list \<Rightarrow> (nat \<times> string) list \<Rightarrow> string" where
  "expand [] caps = []"
| "expand (RLit s # t) caps = s @ expand t caps"
| "expand (RGroup n # t) caps =
     (case map_of caps n of None \<Rightarrow> [] | Some g \<Rightarrow> g) @ expand t caps"

text \<open>
  \<^verbatim>\<open>re.sub(pattern, repl, text)\<close>: scan from the left; where the pattern matches, emit the
  expanded replacement and go on after the match; elsewhere copy one character. No
  pattern of \<^verbatim>\<open>clean_text\<close> can match the empty string (\<open>patterns_consume\<close> and
  \<open>re_sub_consumes\<close> below), so the last branch, which copies a character where a match
  would consume nothing, is never taken there.
\<close>

function re_sub :: "regex \<Rightarrow> repl_item list \<Rightarrow> bool \<Rightarrow> string \<Rightarrow> string" where
  "re_sub r t bol [] = []"
| "re_sub r t bol (c # cs) =
     (case first_match r (bol, c # cs, []) of
        None \<Rightarrow> c # re_sub r t (c = newline) cs
      | Some (bol', rest, caps) \<Rightarrow>
          if length rest < length (c # cs) then expand t caps @ re_sub r t bol' rest
          else c # re_sub r t (c = newline) cs)"
  by pat_completeness auto
termination
  by (relation "measure (\<lambda>(r, t, bol, s). length s)") auto

definition sub :: "regex \<Rightarrow> repl_item list \<Rightarrow> string \<Rightarrow> string" where
  "sub r t s = re_sub r t True s"

section \<open>\<^verbatim>\<open>clean_text\<close>\<close>

text \<open>The twelve patterns, in the order of the source.\<close>

definition templates_re :: regex where
  \<comment> \<open>\<^verbatim>\<open>\{\{[^}]*\}\}\<close>\<close>
  "templates_re = cat [Lit ''{{'', Star (NoneOf ''}''), Lit ''}}'']"

definition links_re :: regex where
  \<comment> \<open>\<^verbatim>\<open>\[\[([^|\]]*\|)?([^\]]*)\]\]\<close>\<close>
  "links_re = cat [Lit ''[['', Opt (Group 1 (cat [Star (NoneOf ''|]''), Lit ''|''])),
                   Group 2 (Star (NoneOf '']'')), Lit '']]'']"

definition ref_pair_re :: regex where
  \<comment> \<open>\<^verbatim>\<open><ref[^>]*>.*?</ref>\<close> with \<^verbatim>\<open>re.DOTALL\<close>\<close>
  "ref_pair_re = cat [Lit ''<ref'', Star (NoneOf ''>''), Lit ''>'', LazyStar AnyChar,
                      Lit ''</ref>'']"

definition ref_self_re :: regex where
  \<comment> \<open>\<^verbatim>\<open><ref[^>]*\/>\<close>\<close>
  "ref_self_re = cat [Lit ''<ref'', Star (NoneOf ''>''), Lit ''/>'']"

definition tags_re :: regex where
  \<comment> \<open>\<^verbatim>\<open><[^>]+>\<close>\<close>
  "tags_re = cat [Lit ''<'', Plus (NoneOf ''>''), Lit ''>'']"

definition bold_re :: regex where
  "bold_re = Lit [apos, apos, apos]"

definition italic_re :: regex where
  "italic_re = Lit [apos, apos]"

definition lists_re :: regex where
  \<comment> \<open>\<^verbatim>\<open>^[*#:;]+\<close> with \<^verbatim>\<open>re.MULTILINE\<close>\<close>
  "lists_re = cat [Bol, Plus (OneOf ''*#:;'')]"

definition headers_re :: regex where
  \<comment> \<open>\<^verbatim>\<open>^=+\s*(.+?)\s*=+$\<close> with \<^verbatim>\<open>re.MULTILINE\<close>\<close>
  "headers_re = cat [Bol, Plus (OneOf ''=''), Star Space, Group 1 (LazyPlus NotNewline),
                     Star Space, Plus (OneOf ''=''), Eol]"

definition urls_re :: regex where
  \<comment> \<open>\<^verbatim>\<open>https?://\S+\<close>\<close>
  "urls_re = cat [Lit ''http'', Opt (Lit ''s''), Lit ''://'', Plus NonSpace]"

definition newlines_re :: regex where
  \<comment> \<open>\<^verbatim>\<open>\n\n+\<close>\<close>
  "newlines_re = cat [Lit [newline], Plus (OneOf [newline])]"

definition spaces_re :: regex where
  \<comment> \<open>\<^verbatim>\<open> +\<close>\<close>
  "spaces_re = Plus (OneOf '' '')"

definition clean_text :: "string \<Rightarrow> string" where
  "clean_text text0 =
     (if text0 = [] then []
      else
        let t = sub templates_re [] text0;
            t = sub links_re [RGroup 2] t;
            t = sub ref_pair_re [] t;
            t = sub ref_self_re [] t;
            t = sub tags_re [] t;
            t = sub bold_re [] t;
            t = sub italic_re [] t;
            t = sub lists_re [] t;
            t = sub headers_re [RGroup 1] t;
            t = sub urls_re [] t;
            t = sub newlines_re [RLit [newline, newline]] t;
            t = sub spaces_re [RLit '' ''] t
        in strip t)"

text \<open>
  The variant the specification warns against, for comparison with \<open>clean_text\<close>: the
  same rules, with generic tag stripping moved in front of the two reference rules.
\<close>

definition clean_text_tags_first :: "string \<Rightarrow> string" where
  "clean_text_tags_first text0 =
     (if text0 = [] then []
      else
        let t = sub templates_re [] text0;
            t = sub links_re [RGroup 2] t;
            t = sub tags_re [] t;
            t = sub ref_pair_re [] t;
            t = sub ref_self_re [] t;
            t = sub bold_re [] t;
            t = sub italic_re [] t;
            t = sub lists_re [] t;
            t = sub headers_re [RGroup 1] t;
            t = sub urls_re [] t;
            t = sub newlines_re [RLit [newline, newline]] t;
            t = sub spaces_re [RLit '' ''] t
        in strip t)"

text \<open>
  A sufficient syntactic condition for a pattern to consume at least one character in
  every match; all twelve patterns above satisfy it.
\<close>

fun consumes :: "regex \<Rightarrow> bool" where
  "consumes (Lit cs) = (cs \<noteq> [])"
| "consumes (Plus p) = True"
| "consumes (LazyPlus p) = True"
| "consumes (Group n r) = consumes r"
| "consumes (Seq r1 r2) = (consumes r1 \<or> consumes r2)"
| "consumes r = False"

section \<open>\<^verbatim>\<open>extract_articles\<close>\<close>

text \<open>
  The input of the loop is the sequence of events that \<^verbatim>\<open>ET.iterparse\<close> yields for the
  dump: the event name, and the element with its tag and its text (\<open>None\<close> for an
  element without text).
\<close>

datatype event_kind = Start | End

record element =
  elem_tag :: string
  elem_text :: "string option"

type_synonym event = "event_kind \<times> element"

text \<open>\<^verbatim>\<open>elem.tag.split('}')[-1]\<close>: the tag after its last closing brace.\<close>

definition local_tag :: "string \<Rightarrow> string" where
  "local_tag s = rev (takeWhile (\<lambda>c. c \<noteq> CHR ''}'') (rev s))"

text \<open>\<^verbatim>\<open>str.startswith\<close>, for one prefix and for a tuple of prefixes.\<close>

definition startswith :: "string \<Rightarrow> string \<Rightarrow> bool" where
  "startswith s p = (take (length p) s = p)"

definition startswith_any :: "string \<Rightarrow> string list \<Rightarrow> bool" where
  "startswith_any s ps = list_ex (startswith s) ps"

definition special_prefixes :: "string list" where
  "special_prefixes = [''Wikipedia:'', ''Template:'', ''Category:'', ''File:'', ''Help:'']"

text \<open>
  What the run prints: the two opening lines, a progress line at every hundredth article,
  the summary and the closing line. A size is printed in megabytes,
  \<^verbatim>\<open>text_size / (1024 * 1024)\<close>, which the format string then renders to one decimal.
\<close>

definition mb :: "nat \<Rightarrow> rat" where
  "mb n = of_nat n / (1024 * 1024)"

datatype console_line =
    Extracting string
  | OutputTo string
  | Progress nat rat
  | Summary nat rat
  | SavedTo string

text \<open>
  The variables of the loop. \<open>out\<close> is the list of the strings passed to
  \<^verbatim>\<open>out.write\<close>, in order; the output file holds their concatenation.
\<close>

record run_state =
  article_count :: nat
  text_size :: nat
  current_title :: "string option"
  current_text :: "string option"
  in_page :: bool
  out :: "string list"
  console :: "console_line list"

text \<open>\<^verbatim>\<open>max_articles and article_count >= max_articles\<close>: \<open>None\<close> and 0 are both false.\<close>

fun cap_reached :: "int option \<Rightarrow> nat \<Rightarrow> bool" where
  "cap_reached None n = False"
| "cap_reached (Some m) n = (m \<noteq> 0 \<and> m \<le> int n)"

text \<open>
  The branch of an \<^verbatim>\<open>end\<close> event of a \<^verbatim>\<open>page\<close> element. The second component tells
  whether the loop breaks.
\<close>

definition end_page :: "int option \<Rightarrow> run_state \<Rightarrow> run_state \<times> bool" where
  "end_page max_articles st =
     (case (current_title st, current_text st) of
        (Some title, Some body) \<Rightarrow>
          if title \<noteq> [] \<and> body \<noteq> [] \<and> \<not> startswith_any title special_prefixes then
            (let clean = clean_text body in
             if 100 < length clean then
               (let st1 = st\<lparr>out := out st @ [title @ [newline], clean @ [newline, newline]],
                              article_count := article_count st + 1,
                              text_size := text_size st + length clean\<rparr>;
                    st2 = (if article_count st1 mod 100 = 0
                           then st1\<lparr>console := console st1 @
                                  [Progress (article_count st1) (mb (text_size st1))]\<rparr>
                           else st1)
                in if cap_reached max_articles (article_count st2) then (st2, True)
                   else (st2\<lparr>in_page := False\<rparr>, False))
             else (st\<lparr>in_page := False\<rparr>, False))
          else (st\<lparr>in_page := False\<rparr>, False)
      | _ \<Rightarrow> (st\<lparr>in_page := False\<rparr>, False))"

text \<open>One iteration of the loop over the events.\<close>

definition step :: "int option \<Rightarrow> event \<Rightarrow> run_state \<Rightarrow> run_state \<times> bool" where
  "step max_articles ev st =
     (let kind = fst ev; elem = snd ev; tag = local_tag (elem_tag elem) in
      if kind = Start \<and> tag = ''page'' then
        (st\<lparr>in_page := True, current_title := None, current_text := None\<rparr>, False)
      else if kind = End \<and> tag = ''title'' \<and> in_page st then
        (st\<lparr>current_title := elem_text elem\<rparr>, False)
      else if kind = End \<and> tag = ''text'' \<and> in_page st then
        (st\<lparr>current_text := elem_text elem\<rparr>, False)
      else if kind = End \<and> tag = ''page'' then end_page max_articles st
      else (st, False))"

fun loop :: "int option \<Rightarrow> event list \<Rightarrow> run_state \<Rightarrow> run_state" where
  "loop max_articles [] st = st"
| "loop max_articles (ev # evs) st =
     (case step max_articles ev st of
        (st', True) \<Rightarrow> st'
      | (st', False) \<Rightarrow> loop max_articles evs st')"

text \<open>
  The run. \<^verbatim>\<open>_, root = next(context)\<close> takes the first event, the start of the root
  element, before the loop; a parse that yields no event at all fails there.
\<close>

datatype error = NoRootElement

definition initial_state :: "string \<Rightarrow> string \<Rightarrow> run_state" where
  "initial_state xml_file output_file =
     \<lparr>article_count = 0, text_size = 0, current_title = None, current_text = None,
      in_page = False, out = [],
      console = [Extracting xml_file, OutputTo output_file]\<rparr>"

definition extract_articles ::
  "string \<Rightarrow> string \<Rightarrow> event list \<Rightarrow> int option \<Rightarrow> error + run_state" where
  "extract_articles xml_file output_file events max_articles =
     (case events of
        [] \<Rightarrow> Inl NoRootElement
      | root_event # evs \<Rightarrow>
          (let st = loop max_articles evs (initial_state xml_file output_file)
           in Inr (st\<lparr>console := console st @
                     [Summary (article_count st) (mb (text_size st)), SavedTo output_file]\<rparr>)))"

section \<open>Reading the output back, and sample documents\<close>

text \<open>
  The records in a sequence of writes: each record is two writes, the title followed by a
  newline and the cleaned text followed by two newlines.
\<close>

fun written_records :: "string list \<Rightarrow> (string \<times> string) list" where
  "written_records (t # c # ws) = (butlast t, butlast (butlast c)) # written_records ws"
| "written_records ws = []"


text \<open>The events that the second branch of the loop reacts to inside a page.\<close>

definition is_title_end :: "event \<Rightarrow> bool" where
  "is_title_end ev = (fst ev = End \<and> local_tag (elem_tag (snd ev)) = ''title'')"

text \<open>
  The events of a dump as the parser yields them, with the namespace of the export
  schema on every tag: a page with the given title events and one text child, and a
  document of pages under the root element.
\<close>

definition ns :: "string \<Rightarrow> string" where
  "ns name = ''{http://www.mediawiki.org/xml/export-0.10/}'' @ name"

definition leaf :: "string \<Rightarrow> string \<Rightarrow> event list" where
  "leaf name content =
     [(Start, \<lparr>elem_tag = ns name, elem_text = None\<rparr>),
      (End, \<lparr>elem_tag = ns name, elem_text = Some content\<rparr>)]"

definition page :: "string list \<Rightarrow> string \<Rightarrow> event list" where
  "page titles body =
     [(Start, \<lparr>elem_tag = ns ''page'', elem_text = None\<rparr>)] @
     concat (map (leaf ''title'') titles) @ leaf ''text'' body @
     [(End, \<lparr>elem_tag = ns ''page'', elem_text = None\<rparr>)]"

definition document :: "event list list \<Rightarrow> event list" where
  "document pages =
     [(Start, \<lparr>elem_tag = ns ''mediawiki'', elem_text = None\<rparr>)] @ concat pages @
     [(End, \<lparr>elem_tag = ns ''mediawiki'', elem_text = None\<rparr>)]"

definition plain :: "nat \<Rightarrow> string" where
  "plain n = replicate n (CHR ''a'')"

section \<open>Every match of a pattern of \<^verbatim>\<open>clean_text\<close> moves forward\<close>

lemma greedy_runs_length:
  "m \<in> set (greedy_runs p (b, s, caps)) \<Longrightarrow> length (fst (snd m)) \<le> length s"
proof (induction s arbitrary: b)
  case Nil
  then show ?case by simp
next
  case (Cons c s)
  then show ?case using le_SucI by (fastforce split: if_splits)
qed

lemma lazy_runs_length:
  "m \<in> set (lazy_runs p (b, s, caps)) \<Longrightarrow> length (fst (snd m)) \<le> length s"
proof (induction s arbitrary: b)
  case Nil
  then show ?case by simp
next
  case (Cons c s)
  then show ?case using le_SucI by (fastforce split: if_splits)
qed

lemma one_char_length:
  "m \<in> set (one_char p (b, s, caps)) \<Longrightarrow> length (fst (snd m)) < length s"
  by (cases s) (auto split: if_splits)

lemma lit_match_length:
  "m \<in> set (lit_match l (b, s, caps)) \<Longrightarrow>
   length (fst (snd m)) \<le> length s \<and> (l \<noteq> [] \<longrightarrow> length (fst (snd m)) < length s)"
proof (induction l arbitrary: b s)
  case Nil
  then show ?case by simp
next
  case (Cons x l)
  then show ?case by (cases s) (fastforce split: if_splits)+
qed

lemma rmatch_length:
  "m \<in> set (rmatch r st) \<Longrightarrow>
   length (fst (snd m)) \<le> length (fst (snd st)) \<and>
   (consumes r \<longrightarrow> length (fst (snd m)) < length (fst (snd st)))"
proof (induction r arbitrary: st m)
  case (Lit l)
  then show ?case using lit_match_length [of m l "fst st" "fst (snd st)" "snd (snd st)"] by simp
next
  case (Star p)
  then show ?case using greedy_runs_length [of m p "fst st" "fst (snd st)" "snd (snd st)"] by simp
next
  case (Plus p)
  then obtain k where k: "k \<in> set (one_char p st)" and m: "m \<in> set (greedy_runs p k)" by auto
  from one_char_length [of k p "fst st" "fst (snd st)" "snd (snd st)"] k
  have "length (fst (snd k)) < length (fst (snd st))" by simp
  moreover from greedy_runs_length [of m p "fst k" "fst (snd k)" "snd (snd k)"] m
  have "length (fst (snd m)) \<le> length (fst (snd k))" by simp
  ultimately show ?case by simp
next
  case (LazyStar p)
  then show ?case using lazy_runs_length [of m p "fst st" "fst (snd st)" "snd (snd st)"] by simp
next
  case (LazyPlus p)
  then obtain k where k: "k \<in> set (one_char p st)" and m: "m \<in> set (lazy_runs p k)" by auto
  from one_char_length [of k p "fst st" "fst (snd st)" "snd (snd st)"] k
  have "length (fst (snd k)) < length (fst (snd st))" by simp
  moreover from lazy_runs_length [of m p "fst k" "fst (snd k)" "snd (snd k)"] m
  have "length (fst (snd m)) \<le> length (fst (snd k))" by simp
  ultimately show ?case by simp
next
  case (Opt r)
  from Opt.prems have "m \<in> set (rmatch r st) \<or> m = st" by auto
  then show ?case using Opt.IH [of m st] by auto
next
  case (Group n r)
  from Group.prems obtain k where k: "k \<in> set (rmatch r st)"
    and m: "m = capture n (fst (snd st)) k" by auto
  from m have "fst (snd m) = fst (snd k)" by (cases k) simp
  with Group.IH [OF k] show ?case by simp
next
  case (Seq r1 r2)
  from Seq.prems obtain k where k: "k \<in> set (rmatch r1 st)" and m: "m \<in> set (rmatch r2 k)"
    by auto
  from Seq.IH(1) [OF k] Seq.IH(2) [OF m] show ?case by auto
next
  case Bol
  then show ?case by (auto split: if_splits)
next
  case Eol
  then show ?case by (auto split: list.splits if_splits)
qed

lemma first_match_consumes:
  assumes "consumes r" and "first_match r (bol, s, caps) = Some (bol', rest, caps')"
  shows "length rest < length s"
proof -
  from assms(2) have "(bol', rest, caps') \<in> set (rmatch r (bol, s, caps))"
    by (auto simp: first_match_def split: list.splits)
  from rmatch_length [OF this] assms(1) show ?thesis by simp
qed

lemma patterns_consume:
  "consumes templates_re" "consumes links_re" "consumes ref_pair_re" "consumes ref_self_re"
  "consumes tags_re" "consumes bold_re" "consumes italic_re" "consumes lists_re"
  "consumes headers_re" "consumes urls_re" "consumes newlines_re" "consumes spaces_re"
  by (simp_all add: templates_re_def links_re_def ref_pair_re_def ref_self_re_def tags_re_def
      bold_re_def italic_re_def lists_re_def headers_re_def urls_re_def newlines_re_def
      spaces_re_def cat_def)

lemma re_sub_consumes:
  assumes "consumes r"
  shows "re_sub r t bol (c # cs) =
     (case first_match r (bol, c # cs, []) of
        None \<Rightarrow> c # re_sub r t (c = newline) cs
      | Some (bol', rest, caps) \<Rightarrow> expand t caps @ re_sub r t bol' rest)"
  using first_match_consumes [OF assms, of bol "c # cs" "[]"]
  by (auto split: option.splits)

section \<open>The matcher on runs and literals\<close>




























section \<open>Text without markup\<close>

lemma re_sub_plain:
  assumes "\<And>b cs. first_match r (b, CHR ''a'' # cs, []) = None"
  shows "re_sub r t b (plain n) = plain n"
  unfolding plain_def by (induction n arbitrary: b) (simp_all add: assms)

lemma sub_plain:
  assumes "\<And>b cs. first_match r (b, CHR ''a'' # cs, []) = None"
  shows "sub r t (plain n) = plain n"
  unfolding sub_def using assms by (rule re_sub_plain)

lemma strip_plain: "strip (plain n) = plain n"
  by (simp add: strip_def is_space_def plain_def)

lemma clean_text_plain: "clean_text (plain n) = plain n"
proof -
  have 1: "sub templates_re t (plain n) = plain n" for t
    by (rule sub_plain) (simp add: first_match_def templates_re_def cat_def)
  have 2: "sub links_re t (plain n) = plain n" for t
    by (rule sub_plain) (simp add: first_match_def links_re_def cat_def)
  have 3: "sub ref_pair_re t (plain n) = plain n" for t
    by (rule sub_plain) (simp add: first_match_def ref_pair_re_def cat_def)
  have 4: "sub ref_self_re t (plain n) = plain n" for t
    by (rule sub_plain) (simp add: first_match_def ref_self_re_def cat_def)
  have 5: "sub tags_re t (plain n) = plain n" for t
    by (rule sub_plain) (simp add: first_match_def tags_re_def cat_def)
  have 6: "sub bold_re t (plain n) = plain n" for t
    by (rule sub_plain) (simp add: first_match_def bold_re_def apos_def)
  have 7: "sub italic_re t (plain n) = plain n" for t
    by (rule sub_plain) (simp add: first_match_def italic_re_def apos_def)
  have 8: "sub lists_re t (plain n) = plain n" for t
    by (rule sub_plain) (simp add: first_match_def lists_re_def cat_def)
  have 9: "sub headers_re t (plain n) = plain n" for t
    by (rule sub_plain) (simp add: first_match_def headers_re_def cat_def)
  have 10: "sub urls_re t (plain n) = plain n" for t
    by (rule sub_plain) (simp add: first_match_def urls_re_def cat_def)
  have 11: "sub newlines_re t (plain n) = plain n" for t
    by (rule sub_plain) (simp add: first_match_def newlines_re_def cat_def newline_def)
  have 12: "sub spaces_re t (plain n) = plain n" for t
    by (rule sub_plain) (simp add: first_match_def spaces_re_def)
  show ?thesis
    by (simp add: clean_text_def 1 2 3 4 5 6 7 8 9 10 11 12 strip_plain)
qed

section \<open>The cleaning rules\<close>

text \<open>
  C1 (as the code has it): for the page text
  \<^verbatim>\<open>'''Bold''' text with a [[Link|shown]] and {{cite|x}} reference<ref>note</ref> end.\<close>
  \<open>clean_text\<close> returns exactly \<^verbatim>\<open>Bold text with a shown and reference end.\<close>: the word
  \<^verbatim>\<open>reference\<close> stands outside both the template and the reference span and is kept, and
  the two spaces left around the removed template are collapsed to one by the rule for
  runs of spaces.
\<close>

theorem clean_text_end_to_end:
  "clean_text ([apos, apos, apos] @ ''Bold'' @ [apos, apos, apos] @
      '' text with a [[Link|shown]] and {{cite|x}} reference<ref>note</ref> end.'') =
   ''Bold text with a shown and reference end.''"
  by code_simp

text \<open>The result is not the text with the word dropped and the double space kept.\<close>

theorem clean_text_end_to_end_counterexample:
  "clean_text ([apos, apos, apos] @ ''Bold'' @ [apos, apos, apos] @
      '' text with a [[Link|shown]] and {{cite|x}} reference<ref>note</ref> end.'') \<noteq>
   ''Bold text with a shown and  end.''"
  by code_simp

text \<open>
  C4: \<open>clean_text\<close> turns \<^verbatim>\<open><ref>x</ref>y\<close> into \<^verbatim>\<open>y\<close>, while the pipeline that strips
  generic tags before references turns it into \<^verbatim>\<open>xy\<close>; the two orders of the rules are
  not equivalent, and the implemented one strips references first.
\<close>

theorem rule_order_matters:
  "clean_text ''<ref>x</ref>y'' = ''y'' \<and>
   clean_text_tags_first ''<ref>x</ref>y'' = ''xy'' \<and>
   clean_text ''<ref>x</ref>y'' \<noteq> clean_text_tags_first ''<ref>x</ref>y''"
  by code_simp






section \<open>The loop over the events\<close>

lemma startswith_any_iff:
  "startswith_any s ps \<longleftrightarrow> (\<exists>p\<in>set ps. \<exists>rest. s = p @ rest)"
proof -
  have "startswith s p \<longleftrightarrow> (\<exists>rest. s = p @ rest)" for p
    unfolding startswith_def
    by (metis append_eq_conv_conj append_take_drop_id)
  then show ?thesis by (simp add: startswith_any_def list_ex_iff)
qed












lemma loop_zero: "loop (Some 0) evs st = loop None evs st"
proof -
  have "end_page (Some 0) s = end_page None s" for s
    by (simp add: end_page_def Let_def split: option.splits)
  then have "step (Some 0) ev s = step None ev s" for ev s
    by (simp add: step_def Let_def)
  then show ?thesis by (induction evs arbitrary: st) simp_all
qed

lemma length_plain: "length (plain n) = n"
  by (simp add: plain_def)

lemma plain_Nil: "plain n = [] \<longleftrightarrow> n = 0"
  by (simp add: plain_def)


lemma takeWhile_stop:
  "\<forall>x\<in>set xs. P x \<Longrightarrow> \<not> P y \<Longrightarrow> takeWhile P (xs @ y # ys) = xs"
  by (induction xs) auto

lemma local_tag_ns: "CHR ''}'' \<notin> set name \<Longrightarrow> local_tag (ns name) = name"
proof -
  assume a: "CHR ''}'' \<notin> set name"
  have "rev (ns name) = rev name @ CHR ''}'' # rev ''{http://www.mediawiki.org/xml/export-0.10/''"
    by (simp add: ns_def)
  moreover have "\<forall>c\<in>set (rev name). c \<noteq> CHR ''}''" using a by auto
  ultimately have "takeWhile (\<lambda>c. c \<noteq> CHR ''}'') (rev (ns name)) = rev name"
    by (simp only: takeWhile_stop simp_thms)
  then show ?thesis by (simp add: local_tag_def)
qed

lemma loop_leaf:
  assumes "in_page st" and "name \<noteq> ''page''" and "CHR ''}'' \<notin> set name"
  shows "loop mx (leaf name content @ rest) st =
     loop mx rest
       (if name = ''title'' then st\<lparr>current_title := Some content\<rparr>
        else if name = ''text'' then st\<lparr>current_text := Some content\<rparr> else st)"
  using assms by (simp add: leaf_def step_def local_tag_ns)

lemma loop_titles:
  assumes "in_page st"
  shows "loop mx (concat (map (leaf ''title'') titles) @ rest) st =
     loop mx rest (if titles = [] then st else st\<lparr>current_title := Some (last titles)\<rparr>)"
  using assms
proof (induction titles arbitrary: st)
  case Nil
  then show ?case by simp
next
  case (Cons t ts)
  have "loop mx (concat (map (leaf ''title'') (t # ts)) @ rest) st =
      loop mx (concat (map (leaf ''title'') ts) @ rest) (st\<lparr>current_title := Some t\<rparr>)"
    using loop_leaf [OF Cons.prems, of "''title''" mx t "concat (map (leaf ''title'') ts) @ rest"]
    by simp
  also have "\<dots> = loop mx rest (if ts = [] then st\<lparr>current_title := Some t\<rparr>
      else st\<lparr>current_title := Some t, current_title := Some (last ts)\<rparr>)"
    using Cons.IH [of "st\<lparr>current_title := Some t\<rparr>"] Cons.prems by simp
  finally show ?case by simp
qed

lemma loop_page:
  "loop mx (page titles body @ rest) st =
     (case end_page mx (st\<lparr>in_page := True,
              current_title := (if titles = [] then None else Some (last titles)),
              current_text := Some body\<rparr>) of
        (st', True) \<Rightarrow> st'
      | (st', False) \<Rightarrow> loop mx rest st')"
proof -
  let ?s1 = "st\<lparr>in_page := True, current_title := None, current_text := None\<rparr>"
  let ?endp = "(End, \<lparr>elem_tag = ns ''page'', elem_text = None\<rparr>)"
  have a: "loop mx (page titles body @ rest) st =
      loop mx (concat (map (leaf ''title'') titles) @ (leaf ''text'' body @ ?endp # rest)) ?s1"
    by (simp add: page_def step_def local_tag_ns)
  have b: "\<dots> = loop mx (leaf ''text'' body @ ?endp # rest)
      (if titles = [] then ?s1 else ?s1\<lparr>current_title := Some (last titles)\<rparr>)"
    by (rule loop_titles) simp
  have c: "\<dots> = loop mx (?endp # rest)
      (st\<lparr>in_page := True,
              current_title := (if titles = [] then None else Some (last titles)),
              current_text := Some body\<rparr>)"
    using loop_leaf [of "if titles = [] then ?s1 else ?s1\<lparr>current_title := Some (last titles)\<rparr>"
        "''text''" mx body "?endp # rest"]
    by simp
  show ?thesis
    unfolding a b c by (simp add: step_def local_tag_ns)
qed

lemma end_page_plain:
  assumes "current_title st = Some t" and "current_text st = Some (plain n)"
  shows "end_page mx st =
     (if t \<noteq> [] \<and> \<not> startswith_any t special_prefixes \<and> 100 < n then
        (let st1 = st\<lparr>out := out st @ [t @ [newline], plain n @ [newline, newline]],
                       article_count := Suc (article_count st),
                       text_size := text_size st + n\<rparr>;
             st2 = (if Suc (article_count st) mod 100 = 0
                    then st1\<lparr>console := console st @
                           [Progress (Suc (article_count st)) (mb (text_size st + n))]\<rparr>
                    else st1)
         in if cap_reached mx (Suc (article_count st)) then (st2, True)
            else (st2\<lparr>in_page := False\<rparr>, False))
      else (st\<lparr>in_page := False\<rparr>, False))"
  using assms by (auto simp: end_page_def Let_def clean_text_plain length_plain plain_Nil)

lemma step_root_end:
  "step mx (End, \<lparr>elem_tag = ns ''mediawiki'', elem_text = None\<rparr>) st = (st, False)"
  by (simp add: step_def local_tag_ns)

lemma extract_document:
  "extract_articles x y (document pages) mx =
     (let st = loop mx (concat pages @ [(End, \<lparr>elem_tag = ns ''mediawiki'', elem_text = None\<rparr>)])
                 (initial_state x y)
      in Inr (st\<lparr>console := console st @
                [Summary (article_count st) (mb (text_size st)), SavedTo y]\<rparr>))"
  by (simp add: extract_articles_def document_def)

lemma startswith_any_simps:
  "startswith_any s [] = False"
  "startswith_any s (p # ps) = (take (length p) s = p \<or> startswith_any s ps)"
  by (simp_all add: startswith_any_def startswith_def)

lemma butlast_two: "butlast (butlast (s @ [a, b])) = s"
  by (simp add: butlast_append)

lemmas run_simps =
  extract_document loop_page end_page_plain step_root_end initial_state_def
  startswith_any_simps special_prefixes_def butlast_two clean_text_plain length_plain

section \<open>The filters\<close>

text \<open>
  C7: at the end of a page, if the title or the text is absent or empty, or if the title
  starts with one of \<^verbatim>\<open>Wikipedia:\<close>, \<^verbatim>\<open>Template:\<close>, \<^verbatim>\<open>Category:\<close>, \<^verbatim>\<open>File:\<close>, \<^verbatim>\<open>Help:\<close>
  (as an exact, case-sensitive prefix), then nothing is written and no counter changes,
  whatever the text is; the step ends normally, without breaking the loop.
\<close>

theorem pre_clean_filter:
  assumes "local_tag (elem_tag e) = ''page''"
    and "current_title st = None \<or> current_title st = Some [] \<or>
         current_text st = None \<or> current_text st = Some [] \<or>
         (\<exists>p rest. p \<in> set special_prefixes \<and> current_title st = Some (p @ rest))"
  shows "step mx (End, e) st = (st\<lparr>in_page := False\<rparr>, False)"
proof -
  have "\<not> (\<exists>title body. current_title st = Some title \<and> current_text st = Some body \<and>
      title \<noteq> [] \<and> body \<noteq> [] \<and> \<not> startswith_any title special_prefixes)"
    using assms(2) unfolding startswith_any_iff by fastforce
  then have "end_page mx st = (st\<lparr>in_page := False\<rparr>, False)"
    by (auto simp: end_page_def split: option.splits)
  with assms(1) show ?thesis by (simp add: step_def)
qed

text \<open>A template page with a long body leaves the state and the output untouched.\<close>

theorem pre_clean_filter_witness:
  "step None (End, \<lparr>elem_tag = ns ''page'', elem_text = None\<rparr>)
     ((initial_state ''dump.xml'' ''wiki_text.txt'')
        \<lparr>current_title := Some ''Template:Infobox'', current_text := Some (plain 200),
         in_page := True\<rparr>) =
   ((initial_state ''dump.xml'' ''wiki_text.txt'')
        \<lparr>current_title := Some ''Template:Infobox'', current_text := Some (plain 200),
         in_page := False\<rparr>, False) \<and>
   map_sum id out
     (extract_articles ''dump.xml'' ''wiki_text.txt''
        (document [page [''Template:Infobox''] (plain 200)]) None) = Inr []"
proof -
  have "map_sum id out
     (extract_articles ''dump.xml'' ''wiki_text.txt''
        (document [page [''Template:Infobox''] (plain 200)]) None) = Inr []"
    by (simp add: run_simps)
  moreover have "\<exists>p rest. p \<in> set special_prefixes \<and> ''Template:Infobox'' = p @ rest"
    by (rule exI [of _ "''Template:''"], rule exI [of _ "''Infobox''"])
      (simp add: special_prefixes_def)
  ultimately show ?thesis
    using pre_clean_filter [of "\<lparr>elem_tag = ns ''page'', elem_text = None\<rparr>"
      "(initial_state ''dump.xml'' ''wiki_text.txt'')
        \<lparr>current_title := Some ''Template:Infobox'', current_text := Some (plain 200),
         in_page := True\<rparr>" None]
    by (simp add: local_tag_ns)
qed

text \<open>
  C2 (as the code has it): a candidate that passes the filter on title and text is
  written if and only if its cleaned text is longer than 100 characters; a cleaned text of
  exactly 100 characters is rejected.
\<close>

theorem post_clean_filter:
  assumes "local_tag (elem_tag e) = ''page''"
    and "current_title st = Some title" and "current_text st = Some body"
    and "title \<noteq> []" and "body \<noteq> []"
    and "\<not> startswith_any title special_prefixes"
  shows "out (fst (step mx (End, e) st)) =
     (if 100 < length (clean_text body)
      then out st @ [title @ [newline], clean_text body @ [newline, newline]]
      else out st)"
  using assms by (simp add: step_def end_page_def Let_def)

text \<open>A cleaned text of 101 characters is written.\<close>

theorem post_clean_filter_witness:
  "out (fst (step None (End, \<lparr>elem_tag = ns ''page'', elem_text = None\<rparr>)
     ((initial_state ''dump.xml'' ''wiki_text.txt'')
        \<lparr>current_title := Some ''Title'', current_text := Some (plain 101), in_page := True\<rparr>))) =
   [''Title'' @ [newline], plain 101 @ [newline, newline]]"
  using post_clean_filter [of "\<lparr>elem_tag = ns ''page'', elem_text = None\<rparr>"
      "(initial_state ''dump.xml'' ''wiki_text.txt'')
        \<lparr>current_title := Some ''Title'', current_text := Some (plain 101), in_page := True\<rparr>"
      "''Title''" "plain 101" None]
  by (simp add: local_tag_ns startswith_any_simps special_prefixes_def
      clean_text_plain length_plain plain_Nil initial_state_def)

text \<open>
  A page whose title passes the filter and whose cleaned text has exactly 100 characters
  is not written.
\<close>

theorem post_clean_filter_counterexample:
  "\<not> startswith_any ''Title'' special_prefixes \<and>
   length (clean_text (plain 100)) = 100 \<and>
   map_sum id out
     (extract_articles ''dump.xml'' ''wiki_text.txt''
        (document [page [''Title''] (plain 100)]) None) = Inr []"
  by (simp add: run_simps)

section \<open>The title of a page\<close>

text \<open>
  C3 (as the code has it): inside a page every end of a title element replaces the
  stored title, so the candidate carries the text of the last title element that ended in
  the page, not of the first.
\<close>

theorem last_title_kept:
  assumes "in_page st" and "\<forall>ev\<in>set evs. local_tag (elem_tag (snd ev)) \<noteq> ''page''"
  shows "current_title (loop mx evs st) =
     (case filter is_title_end evs of
        [] \<Rightarrow> current_title st
      | t # ts \<Rightarrow> elem_text (snd (last (t # ts))))"
  using assms
proof (induction evs arbitrary: st)
  case Nil
  then show ?case by simp
next
  case (Cons ev evs)
  from Cons.prems have np: "local_tag (elem_tag (snd ev)) \<noteq> ''page''"
    and rest: "\<forall>ev\<in>set evs. local_tag (elem_tag (snd ev)) \<noteq> ''page''" by simp_all
  let ?st' = "if is_title_end ev then st\<lparr>current_title := elem_text (snd ev)\<rparr>
              else if fst ev = End \<and> local_tag (elem_tag (snd ev)) = ''text''
              then st\<lparr>current_text := elem_text (snd ev)\<rparr> else st"
  from np Cons.prems(1) have s: "step mx ev st = (?st', False)"
    by (simp add: step_def is_title_end_def Let_def)
  have ip: "in_page ?st'" using Cons.prems(1) by simp
  from Cons.IH [OF ip rest] s show ?case
    by (auto split: list.splits)
qed

text \<open>After two titles the stored one is the second.\<close>

theorem last_title_kept_witness:
  "current_title (loop None (leaf ''title'' ''First'' @ leaf ''title'' ''Second'' @ leaf ''text'' (plain 101))
     ((initial_state ''dump.xml'' ''wiki_text.txt'')\<lparr>in_page := True\<rparr>)) = Some ''Second''"
  using last_title_kept [of "(initial_state ''dump.xml'' ''wiki_text.txt'')\<lparr>in_page := True\<rparr>"
      "leaf ''title'' ''First'' @ leaf ''title'' ''Second'' @ leaf ''text'' (plain 101)" None]
  by (simp add: leaf_def local_tag_ns is_title_end_def initial_state_def)

text \<open>A page with the titles \<^verbatim>\<open>First\<close> and \<^verbatim>\<open>Second\<close> is written under \<^verbatim>\<open>Second\<close>.\<close>

theorem last_title_kept_counterexample:
  "map_sum id out
     (extract_articles ''dump.xml'' ''wiki_text.txt''
        (document [page [''First'', ''Second''] (plain 101)]) None) =
   Inr [''Second'' @ [newline], plain 101 @ [newline, newline]] \<and>
   ''Second'' \<noteq> ''First''"
  by (simp add: run_simps)

section \<open>The cap on the number of articles\<close>



text \<open>
  C9: with \<^verbatim>\<open>max_articles\<close> = 0 the test \<^verbatim>\<open>max_articles and ...\<close> is false at every
  acceptance, so the run is the run without a cap: every eligible page is written.
\<close>

theorem zero_cap_is_no_cap:
  "extract_articles x y events (Some 0) = extract_articles x y events None"
  by (cases events) (simp_all add: extract_articles_def loop_zero)

text \<open>With a cap of 0 both eligible pages of a document are written.\<close>

theorem zero_cap_is_no_cap_witness:
  "map_sum id (\<lambda>st. map fst (written_records (out st)))
     (extract_articles ''dump.xml'' ''wiki_text.txt''
        (document [page [''A''] (plain 101), page [''B''] (plain 120)]) (Some 0)) =
   Inr [''A'', ''B'']"
  using zero_cap_is_no_cap [of "''dump.xml''" "''wiki_text.txt''"
      "document [page [''A''] (plain 101), page [''B''] (plain 120)]"]
  by (simp add: run_simps)

section \<open>The counters\<close>



end
